theory Spec2Isabelle
  imports Main "HOL-Library.AList"
begin

section \<open>Python values\<close>

text \<open>
  The option bag, the TLS settings, the configuration builder and the override document
  are Python dictionaries holding JSON-like values. A dictionary is an association list
  in insertion order; \<open>map_of\<close> looks a key up.
\<close>

datatype pyval =
    PNone
  | PBool bool
  | PInt int
  | PStr string
  | PList "pyval list"
  | PDict "(string \<times> pyval) list"

type_synonym pydict = "(string \<times> pyval) list"

text \<open>Python truthiness, as used by \<^verbatim>\<open>if x:\<close>.\<close>

fun truthy :: "pyval \<Rightarrow> bool" where
  "truthy PNone = False"
| "truthy (PBool b) = b"
| "truthy (PInt i) = (i \<noteq> 0)"
| "truthy (PStr s) = (s \<noteq> [])"
| "truthy (PList xs) = (xs \<noteq> [])"
| "truthy (PDict kvs) = (kvs \<noteq> [])"

text \<open>\<^verbatim>\<open>d.get(k, default)\<close> and \<^verbatim>\<open>d.pop(k, default)\<close>; the latter returns
  the value together with the dictionary after the removal.\<close>

definition dict_get :: "pydict \<Rightarrow> string \<Rightarrow> pyval \<Rightarrow> pyval" where
  "dict_get d k dflt = (case map_of d k of None \<Rightarrow> dflt | Some v \<Rightarrow> v)"

definition dict_pop :: "pydict \<Rightarrow> string \<Rightarrow> pyval \<Rightarrow> pyval \<times> pydict" where
  "dict_pop d k dflt = (dict_get d k dflt, AList.delete k d)"

text \<open>Decimal rendering of integers, as \<^verbatim>\<open>"%s" % n\<close> does.\<close>

definition digit_char :: "nat \<Rightarrow> char" where
  "digit_char d = char_of (48 + d)"

fun str_nat :: "nat \<Rightarrow> string" where
  "str_nat n = (if n < 10 then [digit_char n] else str_nat (n div 10) @ [digit_char (n mod 10)])"

declare str_nat.simps [simp del]

definition str_int :: "int \<Rightarrow> string" where
  "str_int i = (if i < 0 then CHR ''-'' # str_nat (nat (- i)) else str_nat (nat i))"

text \<open>\<^verbatim>\<open>sep.join(xs)\<close>.\<close>

fun join :: "string \<Rightarrow> string list \<Rightarrow> string" where
  "join sep [] = []"
| "join sep [x] = x"
| "join sep (x # y # ys) = x @ sep @ join sep (y # ys)"

section \<open>Errors\<close>

text \<open>
  Every interaction with a collaborator outside this module (the logging thread, the
  configuration scope, the stash, the cache manager, an extra subsystem, the server
  fleet, the signal module) is a \<open>call\<close>. The process keeps the list of calls made so
  far, so that what was started and what was released can be read off afterwards.
\<close>

type_synonym handle = nat

datatype call =
    LoggingEnter
  | ConfigEnter
  | StashEnter
  | CacheEnter
  | ExtraNew nat nat
  | ExtraEnter nat
  | GetRoutes
  | ServeStart
  | IgnoreInterrupts
  | ProcessInterrupts
  | Kill string int handle
  | ExtraExit nat
  | CacheExit
  | StashExit
  | ConfigExit
  | LoggingExit

datatype error =
    AssertionError string
  | AttributeError string
  | TypeError string
  | KeyError string
  | JSONDecodeError
  | ConfigurationError
  | UnboundLocalError string
  | EnvironmentError string
  | Raised call

section \<open>The readiness poller\<close>

text \<open>
  \<^verbatim>\<open>self.servers\<close> maps a scheme to a list of (port, server handle) pairs. A \<open>net\<close>
  is the outside world at one polling instant: which server processes are alive, and
  which (host, port) endpoints accept a connection within the socket timeout.
\<close>

type_synonym fleet = "(string \<times> (int \<times> handle) list) list"

record net =
  is_alive :: "handle \<Rightarrow> bool"
  accepts :: "pyval \<Rightarrow> int \<Rightarrow> bool"

text \<open>
  \<^verbatim>\<open>test_servers\<close>. The first loop (\<open>dead_servers\<close>) collects the (scheme, port)
  pairs of the servers that are not alive. The second loop runs only when none is dead
  and \<^verbatim>\<open>self.test_server_port\<close> is truthy; it skips the scheme
  \<^verbatim>\<open>quic-transport\<close> and connects to every other port (\<open>connect_targets\<close>), and
  a failed connection makes the endpoint pending. The last component of the result of
  \<open>test_servers_io\<close> is the list of connection attempts made, in order.
\<close>

definition dead_servers :: "net \<Rightarrow> fleet \<Rightarrow> (string \<times> int) list" where
  "dead_servers nw servers =
     [(scheme, port). (scheme, svs) \<leftarrow> servers, (port, server) \<leftarrow> svs, \<not> is_alive nw server]"

definition connect_targets :: "pyval \<Rightarrow> fleet \<Rightarrow> (pyval \<times> int) list" where
  "connect_targets host servers =
     [(host, port). (scheme, svs) \<leftarrow> servers, scheme \<noteq> ''quic-transport'', (port, server) \<leftarrow> svs]"

definition test_servers_io ::
  "net \<Rightarrow> pyval \<Rightarrow> pyval \<Rightarrow> fleet \<Rightarrow> ((string \<times> int) list \<times> (pyval \<times> int) list) \<times> (pyval \<times> int) list" where
  "test_servers_io nw host test_server_port servers =
     (let failed = dead_servers nw servers;
          attempts = (if failed = [] \<and> truthy test_server_port
                      then connect_targets host servers else []);
          pending = [(h, port). (h, port) \<leftarrow> attempts, \<not> accepts nw h port]
      in ((failed, pending), attempts))"

definition test_servers ::
  "net \<Rightarrow> pyval \<Rightarrow> pyval \<Rightarrow> fleet \<Rightarrow> (string \<times> int) list \<times> (pyval \<times> int) list" where
  "test_servers nw host test_server_port servers =
     fst (test_servers_io nw host test_server_port servers)"

text \<open>
  \<^verbatim>\<open>ensure_started\<close>. Time is counted in milliseconds. A \<open>poll_env\<close> gives what
  the loop cannot decide itself: the clock reading \<open>t0\<close> from which the deadline is
  computed, the time \<open>lag\<close> until the loop condition first reads the clock, the world
  \<open>net_at k\<close> seen by the \<open>k\<close>-th call of \<^verbatim>\<open>test_servers\<close>, and the time
  \<open>elapsed k\<close> that the \<open>k\<close>-th iteration takes on top of its sleep of 500.
  The variable \<^verbatim>\<open>failed\<close> is unbound until the first poll (\<open>None\<close>).
  The result comes with the number of polls made.
\<close>

record poll_env =
  t0 :: nat
  lag :: nat
  net_at :: "nat \<Rightarrow> net"
  elapsed :: "nat \<Rightarrow> nat"

definition failure_message :: "(string \<times> int) list \<Rightarrow> string" where
  "failure_message failed =
     ''Servers failed to start: '' @
     join '', '' (map (\<lambda>(scheme, port). scheme @ '':'' @ str_int port) failed)"

definition raise_failed :: "(string \<times> int) list option \<Rightarrow> error + unit" where
  "raise_failed prev =
     (case prev of
        None \<Rightarrow> Inl (UnboundLocalError ''failed'')
      | Some failed \<Rightarrow> Inl (EnvironmentError (failure_message failed)))"

function ensure_started_loop ::
  "poll_env \<Rightarrow> pyval \<Rightarrow> pyval \<Rightarrow> fleet \<Rightarrow> nat \<Rightarrow> nat \<Rightarrow> nat \<Rightarrow> (string \<times> int) list option
     \<Rightarrow> (error + unit) \<times> nat" where
  "ensure_started_loop pe host tsp servers end_time now k prev =
     (if now < end_time
      then (case test_servers (net_at pe k) host tsp servers of
              (failed, pending) \<Rightarrow>
                if failed \<noteq> [] then (raise_failed (Some failed), Suc k)
                else if pending = [] then (Inr (), Suc k)
                else ensure_started_loop pe host tsp servers end_time
                       (now + elapsed pe k + 500) (Suc k) (Some failed))
      else (raise_failed prev, k))"
  by pat_completeness auto
termination
  by (relation "measure (\<lambda>(pe, host, tsp, servers, end_time, now, k, prev). end_time - now)") auto

declare ensure_started_loop.simps [simp del]

definition ensure_started :: "poll_env \<Rightarrow> pyval \<Rightarrow> pyval \<Rightarrow> fleet \<Rightarrow> (error + unit) \<times> nat" where
  "ensure_started pe host tsp servers =
     ensure_started_loop pe host tsp servers (t0 pe + 30000) (t0 pe + lag pe) 0 None"

section \<open>The process and the controller\<close>

text \<open>
  The option bag is shared with the caller: the constructor receives a reference to the
  caller's dictionary and keeps it. The process state \<open>world\<close> therefore has a store
  of dictionaries, addressed by reference, next to the list of collaborator calls made so
  far.
\<close>

record world =
  heap :: "nat \<Rightarrow> pydict"
  trace :: "call list"

datatype override_file = NoFile | Unparsable | Doc pyval

text \<open>
  What the collaborators do is a parameter of the model: \<open>raises h c\<close> says whether the
  call \<open>c\<close>, made after the calls \<open>h\<close>, raises; \<open>builder0\<close> is the content of a fresh
  \<^verbatim>\<open>serve.ConfigBuilder\<close>; \<open>override\<close> is the state of \<^verbatim>\<open>config.json\<close> under the
  tests root; \<open>builder_update\<close> is \<^verbatim>\<open>ConfigBuilder.update\<close>; \<open>started\<close> is the fleet
  that \<^verbatim>\<open>serve.start\<close> returns.
\<close>

record collab =
  raises :: "call list \<Rightarrow> call \<Rightarrow> bool"
  builder0 :: pydict
  override :: override_file
  builder_update :: "pydict \<Rightarrow> pyval \<Rightarrow> error + pydict"
  started :: fleet

text \<open>
  The attributes of a \<^verbatim>\<open>TestEnvironment\<close> that the modelled methods read or write.
  \<open>options\<close> is the reference to the option bag; \<open>debug_info\<close> is \<open>None\<close> for no debugger
  and otherwise holds the \<^verbatim>\<open>interactive\<close> flag; \<open>servers\<close> is \<open>None\<close> as long as the
  attribute has not been assigned (the constructor does not assign it).
\<close>

record TestEnvironment =
  test_paths :: "(string \<times> string) list"
  test_server_port :: pyval
  debug_info :: "bool option"
  options :: nat
  env_extras :: "nat list"
  env_extras_cms :: "nat list option"
  ssl_config :: pydict
  enable_quic :: bool
  config_ctx :: "pydict option"
  config :: "pydict option"
  servers :: "fleet option"

text \<open>
  \<^verbatim>\<open>__init__\<close>. \<^verbatim>\<open>options.pop("test_server_port", True)\<close> comes before the test
  for \<^verbatim>\<open>None\<close>, so an absent option bag raises. The collaborators' constructors are
  taken to succeed.
\<close>

definition init ::
  "world \<Rightarrow> (string \<times> string) list \<Rightarrow> bool option \<Rightarrow> nat option \<Rightarrow> pydict \<Rightarrow> nat list \<Rightarrow> bool
     \<Rightarrow> error + (world \<times> TestEnvironment)" where
  "init w paths dbg opts ssl extras quic =
     (case opts of
        None \<Rightarrow> Inl (AttributeError ''pop'')
      | Some r \<Rightarrow>
          (case dict_pop (heap w r) ''test_server_port'' (PBool True) of
             (v, d) \<Rightarrow>
               Inr (w\<lparr>heap := (heap w)(r := d)\<rparr>,
                    \<lparr>test_paths = paths, test_server_port = v, debug_info = dbg, options = r,
                     env_extras = extras, env_extras_cms = None, ssl_config = ssl,
                     enable_quic = quic, config_ctx = None, config = None, servers = None\<rparr>)))"

subsection \<open>Configuration assembly\<close>

text \<open>\<^verbatim>\<open>serve_path\<close>: \<^verbatim>\<open>test_paths["/"]["tests_path"]\<close>.\<close>

definition serve_path :: "(string \<times> string) list \<Rightarrow> error + string" where
  "serve_path paths = (case map_of paths ''/'' of None \<Rightarrow> Inl (KeyError ''/'') | Some p \<Rightarrow> Inr p)"

definition default_ports :: pydict where
  "default_ports =
     [(''http'', PList [PInt 8000, PInt 8001]),
      (''https'', PList [PInt 8443, PInt 8444]),
      (''ws'', PList [PInt 8888]),
      (''wss'', PList [PInt 8889]),
      (''h2'', PList [PInt 9000])]"

text \<open>
  \<^verbatim>\<open>build_config\<close>. An attribute assignment on the builder is an update of its
  dictionary. The result is the builder that \<^verbatim>\<open>build_config\<close> returns.
\<close>

definition build_config :: "collab \<Rightarrow> world \<Rightarrow> TestEnvironment \<Rightarrow> error + pydict" where
  "build_config env w self =
     (case serve_path (test_paths self) of
        Inl e \<Rightarrow> Inl e
      | Inr root \<Rightarrow>
          (let ports = (if enable_quic self
                        then AList.update ''quic-transport'' (PList [PInt 10000]) default_ports
                        else default_ports);
               cfg = AList.update ''ports'' (PDict ports) (builder0 env)
           in case (case override env of
                      NoFile \<Rightarrow> Inr cfg
                    | Unparsable \<Rightarrow> Inl JSONDecodeError
                    | Doc override_obj \<Rightarrow> builder_update env cfg override_obj) of
                Inl e \<Rightarrow> Inl e
              | Inr cfg \<Rightarrow>
                  (let opts = heap w (options self);
                       cfg = AList.update ''check_subdomains'' (PBool False) cfg;
                       ssl = AList.update ''encrypt_after_connect''
                               (dict_get opts ''encrypt_after_connect'' (PBool False)) (ssl_config self);
                       cfg = AList.update ''ssl'' (PDict ssl) cfg;
                       cfg = (case map_of opts ''browser_host'' of
                                None \<Rightarrow> cfg | Some v \<Rightarrow> AList.update ''browser_host'' v cfg);
                       cfg = (case map_of opts ''bind_address'' of
                                None \<Rightarrow> cfg | Some v \<Rightarrow> AList.update ''bind_address'' v cfg);
                       cfg = AList.update ''server_host'' (dict_get opts ''server_host'' PNone) cfg;
                       cfg = AList.update ''doc_root'' (PStr root) cfg
                   in Inr cfg)))"

text \<open>
  Modelled from the spec: \<^verbatim>\<open>ConfigBuilder.update\<close>, which is not part of this module.
  The spec says that the keys of the override document "deep-merge over (replace) the
  corresponding defaults", and that a malformed document is a configuration error. So:
  every entry of the builder that has a corresponding key in the override is replaced by
  the override's value, recursively where the entry is itself a mapping; a key of the
  override with no corresponding entry changes nothing; a document that gives a
  non-mapping where the builder has a mapping is malformed.
\<close>

fun merge_val :: "pyval \<Rightarrow> pyval \<Rightarrow> pyval option"
  and merge_items :: "pydict \<Rightarrow> pydict \<Rightarrow> pydict option" where
  "merge_val (PDict base) (PDict over) = map_option PDict (merge_items base over)"
| "merge_val (PDict base) v = None"
| "merge_val b v = Some v"
| "merge_items [] over = Some []"
| "merge_items ((k, b) # base) over =
     (case (case map_of over k of None \<Rightarrow> Some b | Some v \<Rightarrow> merge_val b v) of
        None \<Rightarrow> None
      | Some b' \<Rightarrow> map_option ((#) (k, b')) (merge_items base over))"

definition update_spec :: "pydict \<Rightarrow> pyval \<Rightarrow> error + pydict" where
  "update_spec cfg override_obj =
     (case merge_val (PDict cfg) override_obj of
        Some (PDict cfg') \<Rightarrow> Inr cfg'
      | _ \<Rightarrow> Inl ConfigurationError)"

subsection \<open>Entering and leaving the scope\<close>

text \<open>
  A collaborator call is recorded, and raises when the collaborator says so. A Python
  statement sequence stops at the first exception: \<open>andthen r self f\<close> continues with
  \<open>f\<close> after a step \<open>r\<close> that returned, and otherwise propagates the exception with the
  object as it is at that point. \<open>run_calls\<close> is a loop whose body is one call.
\<close>

definition do_call :: "collab \<Rightarrow> call \<Rightarrow> world \<Rightarrow> world \<times> error option" where
  "do_call env c w =
     (w\<lparr>trace := trace w @ [c]\<rparr>, if raises env (trace w) c then Some (Raised c) else None)"

definition andthen ::
  "world \<times> error option \<Rightarrow> 'a \<Rightarrow> (world \<Rightarrow> (world \<times> 'a) \<times> error option)
     \<Rightarrow> (world \<times> 'a) \<times> error option" where
  "andthen r self f = (case r of (w, None) \<Rightarrow> f w | (w, Some e) \<Rightarrow> ((w, self), Some e))"

fun run_calls :: "collab \<Rightarrow> call list \<Rightarrow> world \<Rightarrow> world \<times> error option" where
  "run_calls env [] w = (w, None)"
| "run_calls env (c # cs) w =
     (case do_call env c w of (w', None) \<Rightarrow> run_calls env cs w' | (w', Some e) \<Rightarrow> (w', Some e))"

text \<open>
  The loop over \<^verbatim>\<open>self.env_extras\<close> in \<^verbatim>\<open>__enter__\<close>: the extra is called with
  the option bag (and the configuration), the resulting context manager is entered, and
  only then appended to \<^verbatim>\<open>self.env_extras_cms\<close>. An extra and its context manager
  carry the same number.
\<close>

fun enter_extras ::
  "collab \<Rightarrow> nat \<Rightarrow> nat list \<Rightarrow> world \<Rightarrow> nat list \<Rightarrow> (world \<times> nat list) \<times> error option" where
  "enter_extras env opts [] w cms = ((w, cms), None)"
| "enter_extras env opts (x # xs) w cms =
     andthen (do_call env (ExtraNew x opts) w) cms (\<lambda>w.
     andthen (do_call env (ExtraEnter x) w) cms (\<lambda>w.
     enter_extras env opts xs w (cms @ [x])))"

text \<open>
  The condition under which \<^verbatim>\<open>__enter__\<close> ignores interrupts:
  \<^verbatim>\<open>self.options.get("supports_debugger") and self.debug_info and self.debug_info.interactive\<close>.
\<close>

definition debugger_attached :: "world \<Rightarrow> TestEnvironment \<Rightarrow> bool" where
  "debugger_attached w self =
     (truthy (dict_get (heap w (options self)) ''supports_debugger'' PNone)
      \<and> debug_info self = Some True)"

text \<open>
  \<^verbatim>\<open>__enter__\<close>. The configuration object that the configuration scope yields is
  taken to be the content of the builder.
\<close>

definition enter :: "collab \<Rightarrow> world \<Rightarrow> TestEnvironment \<Rightarrow> (world \<times> TestEnvironment) \<times> error option" where
  "enter env w self =
     andthen (do_call env LoggingEnter w) self (\<lambda>w.
     case build_config env w self of
       Inl e \<Rightarrow> ((w, self), Some e)
     | Inr cfg \<Rightarrow>
         (let self = self\<lparr>config_ctx := Some cfg\<rparr> in
          andthen (do_call env ConfigEnter w) self (\<lambda>w.
          let self = self\<lparr>config := Some cfg\<rparr> in
          andthen (do_call env StashEnter w) self (\<lambda>w.
          andthen (do_call env CacheEnter w) self (\<lambda>w.
          if env_extras_cms self \<noteq> None
          then ((w, self), Some (AssertionError ''A TestEnvironment object cannot be nested''))
          else
            (case enter_extras env (options self) (env_extras self) w [] of
               ((w, cms), Some e) \<Rightarrow> ((w, self\<lparr>env_extras_cms := Some cms\<rparr>), Some e)
             | ((w, cms), None) \<Rightarrow>
                 (let self = self\<lparr>env_extras_cms := Some cms\<rparr> in
                  andthen (do_call env GetRoutes w) self (\<lambda>w.
                  andthen (do_call env ServeStart w) self (\<lambda>w.
                  let self = self\<lparr>servers := Some (started env)\<rparr> in
                  if debugger_attached w self
                  then andthen (do_call env IgnoreInterrupts w) self (\<lambda>w. ((w, self), None))
                  else ((w, self), None))))))))))"

text \<open>
  \<^verbatim>\<open>__exit__\<close>. The statements follow one another with no handler around them.
\<close>

definition kill_calls :: "fleet \<Rightarrow> call list" where
  "kill_calls fl = [Kill scheme port server. (scheme, svs) \<leftarrow> fl, (port, server) \<leftarrow> svs]"

definition exit :: "collab \<Rightarrow> world \<Rightarrow> TestEnvironment \<Rightarrow> (world \<times> TestEnvironment) \<times> error option" where
  "exit env w self =
     andthen (do_call env ProcessInterrupts w) self (\<lambda>w.
     case servers self of
       None \<Rightarrow> ((w, self), Some (AttributeError ''servers''))
     | Some fl \<Rightarrow>
         andthen (run_calls env (kill_calls fl) w) self (\<lambda>w.
         case env_extras_cms self of
           None \<Rightarrow> ((w, self), Some (TypeError ''NoneType is not iterable''))
         | Some cms \<Rightarrow>
             andthen (run_calls env (map ExtraExit cms) w) self (\<lambda>w.
             let self = self\<lparr>env_extras_cms := None\<rparr> in
             andthen (do_call env CacheExit w) self (\<lambda>w.
             andthen (do_call env StashExit w) self (\<lambda>w.
             case config_ctx self of
               None \<Rightarrow> ((w, self), Some (AttributeError ''__exit__''))
             | Some cfg \<Rightarrow>
                 andthen (do_call env ConfigExit w) self (\<lambda>w.
                 andthen (do_call env LoggingExit w) self (\<lambda>w. ((w, self), None))))))))"

text \<open>Which resource a call starts, and which resource a call releases.\<close>

datatype resource = LoggingProxy | Configuration | Stash | CacheManager | Extra nat | Fleet

fun acquires :: "call \<Rightarrow> resource option" where
  "acquires LoggingEnter = Some LoggingProxy"
| "acquires ConfigEnter = Some Configuration"
| "acquires StashEnter = Some Stash"
| "acquires CacheEnter = Some CacheManager"
| "acquires (ExtraEnter x) = Some (Extra x)"
| "acquires ServeStart = Some Fleet"
| "acquires c = None"

fun releases :: "call \<Rightarrow> resource option" where
  "releases (Kill scheme port server) = Some Fleet"
| "releases (ExtraExit x) = Some (Extra x)"
| "releases CacheExit = Some CacheManager"
| "releases StashExit = Some Stash"
| "releases ConfigExit = Some Configuration"
| "releases LoggingExit = Some LoggingProxy"
| "releases c = None"

text \<open>The resources started, and the resources released, by a list of calls, in order.\<close>

definition acquired :: "call list \<Rightarrow> resource list" where
  "acquired cs = List.map_filter acquires cs"

definition released :: "call list \<Rightarrow> resource list" where
  "released cs = List.map_filter releases cs"

text \<open>The steps of a complete entry and of a complete teardown, in program order.\<close>

definition enter_steps :: "TestEnvironment \<Rightarrow> bool \<Rightarrow> call list" where
  "enter_steps self dbg =
     [LoggingEnter, ConfigEnter, StashEnter, CacheEnter]
     @ concat (map (\<lambda>x. [ExtraNew x (options self), ExtraEnter x]) (env_extras self))
     @ [GetRoutes, ServeStart]
     @ (if dbg then [IgnoreInterrupts] else [])"

definition release_steps :: "fleet \<Rightarrow> nat list \<Rightarrow> call list" where
  "release_steps fl cms =
     [ProcessInterrupts] @ kill_calls fl @ map ExtraExit cms
     @ [CacheExit, StashExit, ConfigExit, LoggingExit]"

text \<open>What is observable of a run once the object is left aside: the process and the exception.\<close>

definition outcome :: "(world \<times> 'a) \<times> error option \<Rightarrow> world \<times> error option" where
  "outcome r = (fst (fst r), snd r)"

section \<open>The logging proxy\<close>

text \<open>
  A record carries a severity and a message. The queue holds records and the sentinel
  \<^verbatim>\<open>None\<close>. Each method of \<^verbatim>\<open>LoggerProxy\<close> hands its arguments to the method of
  the same name of the internal \<^verbatim>\<open>_QueueLogger\<close>, whose \<^verbatim>\<open>_handle_log\<close> puts the
  record on the queue; \<^verbatim>\<open>ProxyLoggingContext.__exit__\<close> puts the sentinel.
\<close>

datatype level = LDebug | LInfo | LWarning | LError | LCritical

record log_record =
  level :: level
  message :: string

type_synonym log_queue = "log_record option list"

definition logger_proxy_log :: "level \<Rightarrow> string \<Rightarrow> log_queue \<Rightarrow> log_queue" where
  "logger_proxy_log lvl msg q = q @ [Some \<lparr>level = lvl, message = msg\<rparr>]"

definition emit_all :: "(level \<times> string) list \<Rightarrow> log_queue \<Rightarrow> log_queue" where
  "emit_all rs q = foldl (\<lambda>q (lvl, msg). logger_proxy_log lvl msg q) q rs"

definition proxy_exit :: "log_queue \<Rightarrow> log_queue" where
  "proxy_exit q = q @ [None]"

text \<open>
  Modelled from the spec: the severity order, \<^verbatim>\<open>handlers.LogLevelFilter\<close>,
  \<^verbatim>\<open>LogLevelRewriter\<close> and the consumer \<^verbatim>\<open>proxy.LogQueueThread\<close>, none of which
  is part of this module. The spec says that the filter "only admits info-and-above
  records", that the rewriter "rewrites error severity down to warning", and that the
  consumer thread "reads records until the sentinel arrives, forwarding each to the
  structured logger", where the filter chain installed on that logger applies.
\<close>

fun rank :: "level \<Rightarrow> nat" where
  "rank LDebug = 0"
| "rank LInfo = 1"
| "rank LWarning = 2"
| "rank LError = 3"
| "rank LCritical = 4"

definition log_level_filter ::
  "(log_record \<Rightarrow> log_record option) \<Rightarrow> level \<Rightarrow> log_record \<Rightarrow> log_record option" where
  "log_level_filter inner lvl r = (if rank lvl \<le> rank (level r) then inner r else None)"

definition log_level_rewriter ::
  "(log_record \<Rightarrow> log_record option) \<Rightarrow> level list \<Rightarrow> level \<Rightarrow> log_record \<Rightarrow> log_record option" where
  "log_level_rewriter inner from_levels to_level r =
     inner (if level r \<in> set from_levels then r\<lparr>level := to_level\<rparr> else r)"

fun log_queue_thread :: "(log_record \<Rightarrow> log_record option) \<Rightarrow> log_queue \<Rightarrow> log_record list" where
  "log_queue_thread flt [] = []"
| "log_queue_thread flt (None # q) = []"
| "log_queue_thread flt (Some r # q) =
     (case flt r of None \<Rightarrow> log_queue_thread flt q | Some r' \<Rightarrow> r' # log_queue_thread flt q)"

text \<open>
  The filter chain that \<^verbatim>\<open>ProxyLoggingContext.__init__\<close> installs:
  \<^verbatim>\<open>LogLevelRewriter(LogLevelFilter(lambda x: x, "info"), ["error"], "warning")\<close>.
\<close>

definition component_filter :: "log_record \<Rightarrow> log_record option" where
  "component_filter = log_level_rewriter (log_level_filter Some LInfo) [LError] LWarning"

definition delivered :: "(level \<times> string) list \<Rightarrow> log_record list" where
  "delivered rs = log_queue_thread component_filter (proxy_exit (emit_all rs []))"

section \<open>Example inputs\<close>

definition net0 :: net where
  "net0 = \<lparr> is_alive = (\<lambda>h. h \<noteq> 2), accepts = (\<lambda>host port. True) \<rparr>"

definition fleet0 :: fleet where
  "fleet0 = [(''http'', [(8000, 1), (8001, 3)]), (''https'', [(8443, 2)])]"

definition never_listening :: poll_env where
  "never_listening =
     \<lparr> t0 = 0, lag = 0,
       net_at = (\<lambda>k. \<lparr> is_alive = (\<lambda>h. True), accepts = (\<lambda>host port. False) \<rparr>),
       elapsed = (\<lambda>k. 0) \<rparr>"

definition http_only :: fleet where
  "http_only = [(''http'', [(8000, 1)])]"

definition env0 :: collab where
  "env0 = \<lparr> raises = (\<lambda>h c. False), builder0 = [], override = NoFile,
            builder_update = update_spec, started = fleet0 \<rparr>"

definition w0 :: world where
  "w0 = \<lparr> heap = (\<lambda>r. [(''test_server_port'', PBool False), (''server_host'', PStr ''localhost'')]),
          trace = [] \<rparr>"

definition self0 :: TestEnvironment where
  "self0 = \<lparr>test_paths = [(''/'', ''/tests'')], test_server_port = PBool True, debug_info = None,
             options = 0, env_extras = [1, 2], env_extras_cms = None, ssl_config = [],
             enable_quic = False, config_ctx = None, config = None, servers = None\<rparr>"

definition cfg0 :: pydict where
  "cfg0 = [(''ports'', PDict default_ports), (''check_subdomains'', PBool False),
           (''ssl'', PDict [(''encrypt_after_connect'', PBool False)]),
           (''server_host'', PStr ''localhost''), (''doc_root'', PStr ''/tests'')]"

definition entered0 :: "world \<times> TestEnvironment" where
  "entered0 = fst (enter env0 w0 self0)"

definition extras_fail :: collab where
  "extras_fail = env0\<lparr>raises := (\<lambda>h c. c = ExtraExit 1)\<rparr>"


definition env1 :: collab where
  "env1 = env0\<lparr>started := http_only\<rparr>"


definition popped0 :: world where
  "popped0 = w0\<lparr>heap := (heap w0)(0 := [(''server_host'', PStr ''localhost'')])\<rparr>"

definition env_override :: collab where
  "env_override =
     \<lparr> raises = (\<lambda>h c. False),
       builder0 = [(''check_subdomains'', PBool True), (''ports'', PDict [])],
       override = Doc (PDict [(''check_subdomains'', PBool True),
                              (''ports'', PDict [(''http'', PList [PInt 9999]),
                                                 (''quic-transport'', PList [PInt 1])])]),
       builder_update = update_spec, started = fleet0 \<rparr>"

definition cfg_override :: pydict where
  "cfg_override =
     [(''check_subdomains'', PBool False),
      (''ports'', PDict [(''http'', PList [PInt 9999]),
                         (''https'', PList [PInt 8443, PInt 8444]),
                         (''ws'', PList [PInt 8888]), (''wss'', PList [PInt 8889]),
                         (''h2'', PList [PInt 9000])]),
      (''ssl'', PDict [(''encrypt_after_connect'', PBool False)]),
      (''server_host'', PStr ''localhost''), (''doc_root'', PStr ''/tests'')]"



section \<open>Properties of the readiness poller\<close>

lemma dead_servers_mem:
  "(scheme, svs) \<in> set fl \<Longrightarrow> (port, h) \<in> set svs \<Longrightarrow> \<not> is_alive nw h \<Longrightarrow>
   (scheme, port) \<in> set (dead_servers nw fl)"
  unfolding dead_servers_def
  apply (simp only: set_concat set_map)
  apply simp
  apply (rule bexI[of _ "(scheme, svs)"])
   apply simp
   apply (rule bexI[of _ "(port, h)"])
    apply simp_all
  done

lemma test_servers_failed [simp]:
  "fst (test_servers nw host tsp fl) = dead_servers nw fl"
  by (simp add: test_servers_def test_servers_io_def Let_def)

lemma test_servers_dead:
  "dead_servers nw fl \<noteq> [] \<Longrightarrow>
   test_servers_io nw host tsp fl = ((dead_servers nw fl, []), [])"
  by (simp add: test_servers_io_def Let_def)

text \<open>
  C5. If some handle of the fleet reports not alive, \<^verbatim>\<open>test_servers\<close> returns that
  (scheme, port) pair in the failed list, returns an empty pending list, and makes no
  connection attempt at all.
\<close>

theorem test_servers_fail_fast:
  assumes "(scheme, svs) \<in> set fl" and "(port, h) \<in> set svs" and "\<not> is_alive nw h"
  shows "(scheme, port) \<in> set (fst (test_servers nw host tsp fl))
         \<and> snd (test_servers nw host tsp fl) = []
         \<and> snd (test_servers_io nw host tsp fl) = []"
proof -
  have mem: "(scheme, port) \<in> set (dead_servers nw fl)"
    using assms by (rule dead_servers_mem)
  then have ne: "dead_servers nw fl \<noteq> []"
    by auto
  show ?thesis
    using mem test_servers_dead [OF ne, of host tsp] by (simp add: test_servers_def)
qed

theorem test_servers_fail_fast_witness:
  "(''https'', [(8443, 2)]) \<in> set fleet0 \<and> (8443, 2) \<in> set [(8443::int, 2::nat)] \<and> \<not> is_alive net0 2
   \<and> (''https'', 8443) \<in> set (fst (test_servers net0 (PStr ''h'') (PBool True) fleet0))
   \<and> snd (test_servers net0 (PStr ''h'') (PBool True) fleet0) = []
   \<and> snd (test_servers_io net0 (PStr ''h'') (PBool True) fleet0) = []"
proof -
  have a: "(''https'', [(8443, 2)]) \<in> set fleet0" by (simp add: fleet0_def)
  have b: "(8443, 2) \<in> set [(8443::int, 2::nat)]" by simp
  have c: "\<not> is_alive net0 2" by (simp add: net0_def)
  show ?thesis using a b c test_servers_fail_fast [OF a b c] by simp
qed

text \<open>
  A poll that finds a dead server ends the loop at once, and the message lists the
  (scheme, port) pairs of that poll.
\<close>

lemma ensure_started_loop_dead:
  assumes "now < end_time" and "dead_servers (net_at pe k) fl \<noteq> []"
  shows "ensure_started_loop pe host tsp fl end_time now k prev
           = (Inl (EnvironmentError (failure_message (dead_servers (net_at pe k) fl))), Suc k)"
proof -
  obtain f p where fp: "test_servers (net_at pe k) host tsp fl = (f, p)"
    by (cases "test_servers (net_at pe k) host tsp fl")
  then have "f = dead_servers (net_at pe k) fl"
    using test_servers_failed [of "net_at pe k" host tsp fl] by simp
  with assms fp show ?thesis
    by (subst ensure_started_loop.simps) (simp add: raise_failed_def)
qed

text \<open>
  A poll that finds every server alive and every port accepting ends the loop with
  success.
\<close>

lemma ensure_started_loop_ready:
  assumes "now < end_time" and "test_servers (net_at pe k) host tsp fl = ([], [])"
  shows "ensure_started_loop pe host tsp fl end_time now k prev = (Inr (), Suc k)"
  using assms by (subst ensure_started_loop.simps) simp

text \<open>
  When every poll finds all servers alive and some port pending, the loop runs until the
  deadline; the exception raised then is built from the failed list of the last poll,
  which is empty.
\<close>

lemma ensure_started_loop_pending:
  assumes "\<And>j. test_servers (net_at pe j) host tsp fl = ([], p)" and "p \<noteq> []"
    and "\<And>j. elapsed pe j = 0"
  shows "now + 500 * n = end_time \<Longrightarrow>
     ensure_started_loop pe host tsp fl end_time now k (Some [])
       = (Inl (EnvironmentError (failure_message [])), k + n)"
proof (induction n arbitrary: now k)
  case 0
  then show ?case by (simp add: ensure_started_loop.simps raise_failed_def)
next
  case (Suc n)
  from Suc.prems have lt: "now < end_time" and nxt: "(now + 500) + 500 * n = end_time" by auto
  show ?case
    using Suc.IH [OF nxt, of "Suc k"] lt assms
    by (subst ensure_started_loop.simps) simp
qed

text \<open>
  Every exception that the loop can raise: apart from the unbound variable, the message
  lists the dead servers of one poll, or it lists nothing. A pending endpoint never
  appears in it.
\<close>

lemma ensure_started_loop_errors:
  assumes "fst (ensure_started_loop pe host tsp fl end_time now k prev) = Inl e"
    and "prev = None \<or> prev = Some []"
  shows "e = UnboundLocalError ''failed''
       \<or> e = EnvironmentError (failure_message [])
       \<or> (\<exists>j\<ge>k. dead_servers (net_at pe j) fl \<noteq> []
             \<and> e = EnvironmentError (failure_message (dead_servers (net_at pe j) fl)))"
  using assms
proof (induction pe host tsp fl end_time now k prev rule: ensure_started_loop.induct)
  case (1 pe host tsp fl end_time now k prev)
  show ?case
  proof (cases "now < end_time")
    case False
    with "1.prems" show ?thesis
      by (subst (asm) ensure_started_loop.simps) (auto simp: raise_failed_def)
  next
    case True
    obtain f p where fp: "test_servers (net_at pe k) host tsp fl = (f, p)"
      by (cases "test_servers (net_at pe k) host tsp fl")
    then have f: "f = dead_servers (net_at pe k) fl"
      using test_servers_failed [of "net_at pe k" host tsp fl] by simp
    show ?thesis
    proof (cases "f = []")
      case False
      with True fp "1.prems"(1) have "e = EnvironmentError (failure_message f)"
        by (subst (asm) ensure_started_loop.simps) (simp add: raise_failed_def)
      with False f show ?thesis by auto
    next
      case fnil: True
      show ?thesis
      proof (cases "p = []")
        case True
        with \<open>now < end_time\<close> fp fnil "1.prems"(1) show ?thesis
          by (subst (asm) ensure_started_loop.simps) simp
      next
        case False
        with \<open>now < end_time\<close> fp fnil "1.prems"(1) have rec0:
          "fst (ensure_started_loop pe host tsp fl end_time (now + elapsed pe k + 500) (Suc k)
                  (Some [])) = Inl e"
          by (subst (asm) ensure_started_loop.simps) simp
        have nn: "\<not> f \<noteq> []" using fnil by simp
        have rec: "fst (ensure_started_loop pe host tsp fl end_time (now + elapsed pe k + 500)
                     (Suc k) (Some f)) = Inl e"
          using rec0 fnil by simp
        have pv: "Some f = None \<or> Some f = Some []" using fnil by simp
        from "1.IH" [OF \<open>now < end_time\<close> fp [symmetric] nn False rec pv]
        have "e = UnboundLocalError ''failed''
              \<or> e = EnvironmentError (failure_message [])
              \<or> (\<exists>j\<ge>Suc k. dead_servers (net_at pe j) fl \<noteq> []
                    \<and> e = EnvironmentError (failure_message (dead_servers (net_at pe j) fl)))"
          .
        then show ?thesis
        proof (elim disjE exE conjE)
          fix j
          assume "Suc k \<le> j" and "dead_servers (net_at pe j) fl \<noteq> []"
            and "e = EnvironmentError (failure_message (dead_servers (net_at pe j) fl))"
          moreover from this have "k \<le> j" by simp
          ultimately show ?thesis by blast
        qed simp_all
      qed
    qed
  qed
qed

lemma never_listening_poll:
  "test_servers (net_at never_listening k) (PStr ''web-platform.test'') (PBool True) http_only
     = ([], [(PStr ''web-platform.test'', 8000)])"
  by (simp add: test_servers_def test_servers_io_def dead_servers_def connect_targets_def
      never_listening_def http_only_def Let_def)

text \<open>
  C1. \<^verbatim>\<open>ensure_started\<close> on a fleet of one http server on port 8000 that stays alive
  and never accepts a connection: every one of the 60 polls returns no failed pair and the
  pending entry (web-platform.test, 8000), and the exception raised at the deadline
  carries the message "Servers failed to start: " followed by nothing, not by the
  pending entry.
\<close>

theorem ensure_started_timeout_message:
  "ensure_started never_listening (PStr ''web-platform.test'') (PBool True) http_only
     = (Inl (EnvironmentError ''Servers failed to start: ''), 60)
   \<and> test_servers (net_at never_listening 59) (PStr ''web-platform.test'') (PBool True) http_only
     = ([], [(PStr ''web-platform.test'', 8000)])"
proof -
  have e: "\<And>j. elapsed never_listening j = 0" by (simp add: never_listening_def)
  have t: "t0 never_listening = 0" "lag never_listening = 0" by (simp_all add: never_listening_def)
  have "ensure_started_loop never_listening (PStr ''web-platform.test'') (PBool True) http_only
          30000 500 1 (Some [])
     = (Inl (EnvironmentError (failure_message [])), 1 + 59)"
    by (rule ensure_started_loop_pending [OF never_listening_poll _ e, where n = 59]) simp_all
  then show ?thesis
    by (simp add: ensure_started_def never_listening_poll failure_message_def
          ensure_started_loop.simps [of _ _ _ _ _ _ 0] e t)
qed


section \<open>Properties of the controller\<close>

lemma do_call_run: "do_call env c w = run_calls env [c] w"
  by (simp add: do_call_def split: prod.splits option.splits)

lemma run_calls_append:
  "run_calls env (xs @ ys) w =
     (case run_calls env xs w of (w', None) \<Rightarrow> run_calls env ys w' | (w', Some e) \<Rightarrow> (w', Some e))"
  by (induction xs arbitrary: w) (auto split: prod.splits option.splits)

lemma run_calls_heap: "heap (fst (run_calls env cs w)) = heap w"
  by (induction cs arbitrary: w) (auto simp: do_call_def split: prod.splits option.splits)

lemma run_calls_heap': "run_calls env cs w = (w', r) \<Longrightarrow> heap w' = heap w"
  using run_calls_heap [of env cs w] by simp

lemma run_calls_ok:
  "(\<And>h c. \<not> raises env h c) \<Longrightarrow> run_calls env cs w = (w\<lparr>trace := trace w @ cs\<rparr>, None)"
  by (induction cs arbitrary: w) (auto simp: do_call_def)

lemma run_calls_None:
  "run_calls env cs w = (w', None) \<Longrightarrow> trace w' = trace w @ cs"
  by (induction cs arbitrary: w) (auto simp: do_call_def split: prod.splits option.splits if_splits)

lemma run_calls_Some:
  "run_calls env cs w = (w', Some e) \<Longrightarrow>
   \<exists>before c rest. cs = before @ c # rest \<and> trace w' = trace w @ before @ [c] \<and> e = Raised c
      \<and> raises env (trace w @ before) c"
proof (induction cs arbitrary: w)
  case Nil
  then show ?case by simp
next
  case (Cons a cs)
  show ?case
  proof (cases "raises env (trace w) a")
    case True
    with Cons.prems have "trace w' = trace w @ [a]" "e = Raised a"
      by (auto simp: do_call_def)
    with True show ?thesis by (intro exI [of _ "[]"] exI [of _ a] exI [of _ cs]) simp
  next
    case False
    with Cons.prems have "run_calls env cs (w\<lparr>trace := trace w @ [a]\<rparr>) = (w', Some e)"
      by (simp add: do_call_def)
    from Cons.IH [OF this] obtain before c rest where
      "cs = before @ c # rest" "trace w' = trace w @ [a] @ before @ [c]" "e = Raised c"
      "raises env (trace w @ [a] @ before) c"
      by auto
    then show ?thesis
      by (intro exI [of _ "a # before"] exI [of _ c] exI [of _ rest]) simp
  qed
qed

lemma outcome_andthen:
  "outcome (andthen r self f) = (case r of (w, None) \<Rightarrow> outcome (f w) | (w, Some e) \<Rightarrow> (w, Some e))"
  by (simp add: outcome_def andthen_def split: prod.splits option.splits)

lemma fst_outcome [simp]: "fst (outcome r) = fst (fst r)"
  by (simp add: outcome_def)

lemma snd_outcome [simp]: "snd (outcome r) = snd r"
  by (simp add: outcome_def)

lemma outcome_pair [simp]: "outcome ((w, s), r) = (w, r)"
  by (simp add: outcome_def)

lemma exit_run:
  assumes "servers self = Some fl" and "env_extras_cms self = Some cms" and "config_ctx self = Some cfg"
  shows "outcome (exit env w self) = run_calls env (release_steps fl cms) w"
  using assms
  by (simp add: exit_def release_steps_def outcome_andthen run_calls_append Let_def
        cong: option.case_cong prod.case_cong)

lemma enter_extras_run:
  "outcome (enter_extras env r xs w cms)
     = run_calls env (concat (map (\<lambda>x. [ExtraNew x r, ExtraEnter x]) xs)) w"
  by (induction xs arbitrary: w cms)
     (simp_all add: outcome_andthen cong: option.case_cong prod.case_cong)

lemma enter_extras_cms:
  "enter_extras env r xs w cms = ((w', cms'), None) \<Longrightarrow> cms' = cms @ xs"
proof (induction xs arbitrary: w cms)
  case Nil
  then show ?case by simp
next
  case (Cons x xs)
  from Cons.prems obtain w1 where
    "enter_extras env r xs w1 (cms @ [x]) = ((w', cms'), None)"
    by (auto simp: andthen_def split: prod.splits option.splits)
  from Cons.IH [OF this] show ?case by simp
qed

lemma build_config_trace [simp]: "build_config env (w\<lparr>trace := t\<rparr>) self = build_config env w self"
  by (simp add: build_config_def cong: sum.case_cong)

lemma build_config_heap: "heap w' = heap w \<Longrightarrow> build_config env w' self = build_config env w self"
  by (simp add: build_config_def cong: sum.case_cong)

lemma enter_extras_case:
  "outcome (case enter_extras env r xs w cms of
              ((w', cms'), Some e) \<Rightarrow> ((w', g cms'), Some e)
            | ((w', cms'), None) \<Rightarrow> F w' cms')
   = (case run_calls env (concat (map (\<lambda>x. [ExtraNew x r, ExtraEnter x]) xs)) w of
        (w', None) \<Rightarrow> outcome (F w' (cms @ xs))
      | (w', Some e) \<Rightarrow> (w', Some e))"
proof -
  obtain w' cms' res where r: "enter_extras env r xs w cms = ((w', cms'), res)"
    by (metis surj_pair)
  then have o: "run_calls env (concat (map (\<lambda>x. [ExtraNew x r, ExtraEnter x]) xs)) w = (w', res)"
    using enter_extras_run [of env r xs w cms] by simp
  show ?thesis
  proof (cases res)
    case None
    with r have "cms' = cms @ xs" by (auto dest: enter_extras_cms)
    with r o None show ?thesis by simp
  next
    case (Some e)
    with r o show ?thesis by simp
  qed
qed

lemma enter_run:
  assumes "build_config env w self = Inr cfg" and "env_extras_cms self = None"
  shows "outcome (enter env w self)
     = run_calls env (enter_steps self (debugger_attached w self)) w"
proof -
  show ?thesis
  using assms
  apply (simp add: enter_def enter_steps_def outcome_andthen Let_def enter_extras_case
        do_call_def run_calls_append debugger_attached_def cong: option.case_cong prod.case_cong)
  apply (auto simp: outcome_andthen do_call_def dest: run_calls_heap' split: prod.splits option.splits)
  done
qed


lemma enter_build_fail:
  assumes "build_config env w self = Inl e"
  shows "outcome (enter env w self)
     = (case run_calls env [LoggingEnter] w of (w', None) \<Rightarrow> (w', Some e) | (w', Some x) \<Rightarrow> (w', Some x))"
  using assms
  by (simp add: enter_def outcome_andthen do_call_def)

lemma enter_nested:
  assumes "build_config env w self = Inr cfg" and "env_extras_cms self = Some cms"
  shows "outcome (enter env w self)
     = (case run_calls env [LoggingEnter, ConfigEnter, StashEnter, CacheEnter] w of
          (w', None) \<Rightarrow> (w', Some (AssertionError ''A TestEnvironment object cannot be nested''))
        | (w', Some x) \<Rightarrow> (w', Some x))"
  using assms
  by (simp add: enter_def outcome_andthen do_call_def Let_def)

lemma run_calls_prefix:
  "\<exists>new rest. trace (fst (run_calls env cs w)) = trace w @ new \<and> cs = new @ rest"
proof (cases "run_calls env cs w")
  case (Pair w' r)
  show ?thesis
  proof (cases r)
    case None
    with Pair have "trace w' = trace w @ cs" by (auto dest: run_calls_None)
    with Pair show ?thesis by simp
  next
    case (Some e)
    with Pair obtain before c rest where
      "cs = before @ c # rest" "trace w' = trace w @ before @ [c]"
      by (auto dest!: run_calls_Some)
    with Pair show ?thesis
      by (intro exI [of _ "before @ [c]"] exI [of _ rest]) simp
  qed
qed

lemma enter_steps_dbg:
  "enter_steps self True = enter_steps self dbg @ (if dbg then [] else [IgnoreInterrupts])"
  by (simp add: enter_steps_def)

lemma enter_steps_start:
  "enter_steps self dbg = [LoggingEnter, ConfigEnter, StashEnter, CacheEnter] @ drop 4 (enter_steps self dbg)"
  by (simp add: enter_steps_def)

lemma enter_trace:
  "\<exists>new rest. trace (fst (fst (enter env w self))) = trace w @ new
      \<and> enter_steps self True = new @ rest
      \<and> heap (fst (fst (enter env w self))) = heap w"
proof (cases "build_config env w self")
  case (Inl e)
  obtain new rest where nr: "trace (fst (run_calls env [LoggingEnter] w)) = trace w @ new"
      "[LoggingEnter] = new @ rest"
    using run_calls_prefix [of env "[LoggingEnter]" w] by blast
  have eq: "fst (fst (enter env w self)) = fst (run_calls env [LoggingEnter] w)"
    using arg_cong [OF enter_build_fail [OF Inl], of fst]
    by (simp del: run_calls.simps split: prod.splits option.splits)
  have "enter_steps self True = new @ (rest @ drop 1 (enter_steps self True))"
    using nr(2) by (simp add: enter_steps_def flip: append_assoc)
  with nr(1) eq show ?thesis
    using run_calls_heap [of env "[LoggingEnter]" w] by metis
next
  case (Inr cfg)
  show ?thesis
  proof (cases "env_extras_cms self")
    case None
    let ?cs = "enter_steps self (debugger_attached w self)"
    obtain new rest where nr: "trace (fst (run_calls env ?cs w)) = trace w @ new" "?cs = new @ rest"
      using run_calls_prefix [of env ?cs w] by blast
    have eq: "fst (fst (enter env w self)) = fst (run_calls env ?cs w)"
      using arg_cong [OF enter_run [OF Inr None], of fst] by simp
    have "enter_steps self True = new @ (rest @ (if debugger_attached w self then [] else [IgnoreInterrupts]))"
      using nr(2) enter_steps_dbg [of self "debugger_attached w self"] by simp
    with nr(1) eq show ?thesis
      using run_calls_heap [of env ?cs w] by metis
  next
    case (Some cms)
    let ?cs = "[LoggingEnter, ConfigEnter, StashEnter, CacheEnter]"
    obtain new rest where nr: "trace (fst (run_calls env ?cs w)) = trace w @ new" "?cs = new @ rest"
      using run_calls_prefix [of env ?cs w] by blast
    have eq: "fst (fst (enter env w self)) = fst (run_calls env ?cs w)"
      using arg_cong [OF enter_nested [OF Inr Some], of fst]
      by (simp del: run_calls.simps split: prod.splits option.splits)
    have "enter_steps self True = new @ (rest @ drop 4 (enter_steps self True))"
      using nr(2) enter_steps_start [of self True] by (metis append_assoc)
    with nr(1) eq show ?thesis
      using run_calls_heap [of env ?cs w] by metis
  qed
qed

lemma released_append [simp]: "released (xs @ ys) = released xs @ released ys"
  by (simp add: released_def map_filter_def)

lemma acquired_append [simp]: "acquired (xs @ ys) = acquired xs @ acquired ys"
  by (simp add: acquired_def map_filter_def)

lemma released_Cons [simp]:
  "released (c # cs) = (case releases c of None \<Rightarrow> released cs | Some r \<Rightarrow> r # released cs)"
  by (auto simp: released_def map_filter_def)

lemma acquired_Cons [simp]:
  "acquired (c # cs) = (case acquires c of None \<Rightarrow> acquired cs | Some r \<Rightarrow> r # acquired cs)"
  by (auto simp: acquired_def map_filter_def)

lemma released_Nil [simp]: "released [] = []"
  by (simp add: released_def map_filter_def)

lemma acquired_Nil [simp]: "acquired [] = []"
  by (simp add: acquired_def map_filter_def)

lemma released_extras [simp]:
  "released (concat (map (\<lambda>x. [ExtraNew x r, ExtraEnter x]) xs)) = []"
  by (induction xs) simp_all

lemma acquired_extras [simp]:
  "acquired (concat (map (\<lambda>x. [ExtraNew x r, ExtraEnter x]) xs)) = map Extra xs"
  by (induction xs) simp_all


lemma acquired_enter_steps:
  "acquired (enter_steps self dbg)
     = [LoggingProxy, Configuration, Stash, CacheManager] @ map Extra (env_extras self) @ [Fleet]"
  by (simp add: enter_steps_def)


lemma enter_extras_ok:
  "(\<And>h c. \<not> raises env h c) \<Longrightarrow>
   enter_extras env r xs w cms
     = ((w\<lparr>trace := trace w @ concat (map (\<lambda>x. [ExtraNew x r, ExtraEnter x]) xs)\<rparr>, cms @ xs), None)"
  by (induction xs arbitrary: w cms) (simp_all add: andthen_def do_call_def)

lemma enter_ok:
  assumes "\<And>h c. \<not> raises env h c" and "build_config env w self = Inr cfg"
    and "env_extras_cms self = None"
  shows "enter env w self
     = ((w\<lparr>trace := trace w @ enter_steps self (debugger_attached w self)\<rparr>,
         self\<lparr>config_ctx := Some cfg, config := Some cfg,
              env_extras_cms := Some (env_extras self), servers := Some (started env)\<rparr>), None)"
  using assms
  by (simp add: enter_def andthen_def do_call_def Let_def enter_extras_ok enter_steps_def
        debugger_attached_def)

lemma exit_ok:
  assumes "\<And>h c. \<not> raises env h c" and "servers self = Some fl"
    and "env_extras_cms self = Some cms" and "config_ctx self = Some cfg"
  shows "exit env w self
     = ((w\<lparr>trace := trace w @ release_steps fl cms\<rparr>, self\<lparr>env_extras_cms := None\<rparr>), None)"
  using assms
  by (simp add: exit_def andthen_def do_call_def Let_def run_calls_ok release_steps_def)

lemma build_config0: "build_config env0 w0 self0 = Inr cfg0"
  by (simp add: build_config_def env0_def w0_def self0_def cfg0_def serve_path_def dict_get_def
        Let_def)

lemma build_config1: "build_config env1 w0 self0 = Inr cfg0"
  by (simp add: build_config_def env1_def env0_def w0_def self0_def cfg0_def serve_path_def dict_get_def
        Let_def)

lemma no_debugger0: "\<not> debugger_attached w self0"
  by (simp add: debugger_attached_def self0_def)

lemma entered0_eq:
  "entered0 = (w0\<lparr>trace := enter_steps self0 False\<rparr>,
               self0\<lparr>config_ctx := Some cfg0, config := Some cfg0,
                     env_extras_cms := Some [1, 2], servers := Some fleet0\<rparr>)"
proof -
  have "enter env0 w0 self0
     = ((w0\<lparr>trace := trace w0 @ enter_steps self0 (debugger_attached w0 self0)\<rparr>,
         self0\<lparr>config_ctx := Some cfg0, config := Some cfg0,
              env_extras_cms := Some (env_extras self0), servers := Some (started env0)\<rparr>), None)"
    by (rule enter_ok [OF _ build_config0]) (simp_all add: env0_def self0_def)
  then show ?thesis
    by (simp add: entered0_def no_debugger0) (simp add: w0_def self0_def env0_def)
qed

lemma enter_steps0:
  "enter_steps self0 False
     = [LoggingEnter, ConfigEnter, StashEnter, CacheEnter, ExtraNew 1 0, ExtraEnter 1,
        ExtraNew 2 0, ExtraEnter 2, GetRoutes, ServeStart]"
  by (simp add: enter_steps_def self0_def)

lemma kill_calls0:
  "kill_calls fleet0 = [Kill ''http'' 8000 1, Kill ''http'' 8001 3, Kill ''https'' 8443 2]"
  by (simp add: kill_calls_def fleet0_def)

lemma released_kill_calls: "released (kill_calls fl) = map (\<lambda>c. Fleet) (kill_calls fl)"
proof -
  have "\<And>cs. (\<forall>c\<in>set cs. \<exists>s p h. c = Kill s p h) \<Longrightarrow> released cs = map (\<lambda>c. Fleet) cs"
    subgoal for cs by (induction cs) auto
    done
  moreover have "\<forall>c\<in>set (kill_calls fl). \<exists>s p h. c = Kill s p h"
    by (auto simp: kill_calls_def)
  ultimately show ?thesis by blast
qed

lemma released_extra_exits [simp]: "released (map ExtraExit cms) = map Extra cms"
  by (induction cms) simp_all

lemma released_release_steps:
  "released (release_steps fl cms)
     = map (\<lambda>c. Fleet) (kill_calls fl) @ map Extra cms @ [CacheManager, Stash, Configuration, LoggingProxy]"
  by (simp add: release_steps_def released_kill_calls)

lemma exit_extras_fail:
  "exit extras_fail (fst entered0) (snd entered0)
     = ((w0\<lparr>trace := enter_steps self0 False @ [ProcessInterrupts] @ kill_calls fleet0 @ [ExtraExit 1]\<rparr>,
         snd entered0), Some (Raised (ExtraExit 1)))"
  by (simp add: entered0_eq exit_def andthen_def do_call_def kill_calls0 extras_fail_def)

text \<open>
  A teardown in which the exit of the first extra raises: the second extra, the cache
  manager, the stash, the configuration scope and the logging proxy are not released.
\<close>

theorem exit_runs_every_release_counterexample:
  "snd (exit extras_fail (fst entered0) (snd entered0)) = Some (Raised (ExtraExit 1))
   \<and> released (trace (fst (fst (exit extras_fail (fst entered0) (snd entered0)))))
       = [Fleet, Fleet, Fleet, Extra 1]
   \<and> CacheExit \<notin> set (trace (fst (fst (exit extras_fail (fst entered0) (snd entered0)))))
   \<and> LoggingExit \<notin> set (trace (fst (fst (exit extras_fail (fst entered0) (snd entered0)))))"
  by (simp add: exit_extras_fail enter_steps0 kill_calls0)

lemma run_calls_none_raise:
  "(\<And>n. n < length cs \<Longrightarrow> \<not> raises env (trace w @ take n cs) (cs ! n)) \<Longrightarrow>
   run_calls env cs w = (w\<lparr>trace := trace w @ cs\<rparr>, None)"
proof (induction cs arbitrary: w)
  case Nil
  then show ?case by simp
next
  case (Cons c cs)
  from Cons.prems [of 0] have c: "\<not> raises env (trace w) c" by simp
  have "\<And>n. n < length cs \<Longrightarrow>
      \<not> raises env (trace (w\<lparr>trace := trace w @ [c]\<rparr>) @ take n cs) (cs ! n)"
    using Cons.prems [of "Suc _"] by simp
  from Cons.IH [OF this] c show ?case
    by (simp add: do_call_def)
qed

lemma run_calls_first_raise:
  "n < length cs \<Longrightarrow> raises env (trace w @ take n cs) (cs ! n) \<Longrightarrow>
   (\<And>m. m < n \<Longrightarrow> \<not> raises env (trace w @ take m cs) (cs ! m)) \<Longrightarrow>
   run_calls env cs w = (w\<lparr>trace := trace w @ take (Suc n) cs\<rparr>, Some (Raised (cs ! n)))"
proof (induction cs arbitrary: w n)
  case Nil
  then show ?case by simp
next
  case (Cons c cs)
  show ?case
  proof (cases n)
    case 0
    with Cons.prems(2) show ?thesis by (simp add: do_call_def)
  next
    case (Suc k)
    from Cons.prems(3) [of 0] Suc have c: "\<not> raises env (trace w) c" by simp
    let ?w = "w\<lparr>trace := trace w @ [c]\<rparr>"
    have 1: "k < length cs" using Cons.prems(1) Suc by simp
    have 2: "raises env (trace ?w @ take k cs) (cs ! k)"
      using Cons.prems(2) Suc by simp
    have 3: "\<And>m. m < k \<Longrightarrow> \<not> raises env (trace ?w @ take m cs) (cs ! m)"
      using Cons.prems(3) [of "Suc _"] Suc by simp
    from Cons.IH [OF 1 2 3] c Suc show ?thesis
      by (simp add: do_call_def)
  qed
qed

text \<open>
  C2 (as amended). On an object that has its fleet, its list of entered extras and its
  configuration scope set, \<^verbatim>\<open>__exit__\<close> runs its release steps one after the
  other and stops at the first one that raises. If no step raises, every step is run and
  \<^verbatim>\<open>__exit__\<close> returns. If a step raises and none before it did, that exception
  leaves \<^verbatim>\<open>__exit__\<close>, the steps up to and including it were run, and none of the
  later steps is run.
\<close>

theorem exit_stops_at_first_failure:
  assumes "servers self = Some fl" and "env_extras_cms self = Some cms"
    and "config_ctx self = Some cfg"
  shows "((\<forall>n < length (release_steps fl cms).
             \<not> raises env (trace w @ take n (release_steps fl cms)) (release_steps fl cms ! n))
          \<longrightarrow> snd (exit env w self) = None
              \<and> trace (fst (fst (exit env w self))) = trace w @ release_steps fl cms)
       \<and> (\<forall>n < length (release_steps fl cms).
            raises env (trace w @ take n (release_steps fl cms)) (release_steps fl cms ! n)
            \<and> (\<forall>m < n. \<not> raises env (trace w @ take m (release_steps fl cms))
                              (release_steps fl cms ! m))
            \<longrightarrow> snd (exit env w self) = Some (Raised (release_steps fl cms ! n))
                \<and> trace (fst (fst (exit env w self)))
                    = trace w @ take (Suc n) (release_steps fl cms))"
proof -
  let ?cs = "release_steps fl cms"
  have run: "outcome (exit env w self) = run_calls env ?cs w"
    by (rule exit_run [OF assms])
  have a: "snd (exit env w self) = None \<and> trace (fst (fst (exit env w self))) = trace w @ ?cs"
    if "\<forall>n < length ?cs. \<not> raises env (trace w @ take n ?cs) (?cs ! n)"
  proof -
    have "run_calls env ?cs w = (w\<lparr>trace := trace w @ ?cs\<rparr>, None)"
      using that by (intro run_calls_none_raise) blast
    with run show ?thesis by (simp add: outcome_def)
  qed
  have b: "snd (exit env w self) = Some (Raised (?cs ! n))
         \<and> trace (fst (fst (exit env w self))) = trace w @ take (Suc n) ?cs"
    if "n < length ?cs" and "raises env (trace w @ take n ?cs) (?cs ! n)"
      and "\<forall>m < n. \<not> raises env (trace w @ take m ?cs) (?cs ! m)" for n
  proof -
    have "run_calls env ?cs w = (w\<lparr>trace := trace w @ take (Suc n) ?cs\<rparr>, Some (Raised (?cs ! n)))"
      using that by (intro run_calls_first_raise) blast+
    with run show ?thesis by (simp add: outcome_def)
  qed
  from a b show ?thesis by blast
qed

lemma release_steps0:
  "release_steps fleet0 [1, 2]
     = [ProcessInterrupts, Kill ''http'' 8000 1, Kill ''http'' 8001 3, Kill ''https'' 8443 2,
        ExtraExit 1, ExtraExit 2, CacheExit, StashExit, ConfigExit, LoggingExit]"
  by (simp add: release_steps_def kill_calls0)

theorem exit_stops_at_first_failure_witness:
  "servers (snd entered0) = Some fleet0 \<and> env_extras_cms (snd entered0) = Some [1, 2]
   \<and> config_ctx (snd entered0) = Some cfg0
   \<and> (4::nat) < length (release_steps fleet0 [1, 2])
   \<and> release_steps fleet0 [1, 2] ! 4 = ExtraExit 1
   \<and> raises extras_fail (trace (fst entered0) @ take 4 (release_steps fleet0 [1, 2]))
        (release_steps fleet0 [1, 2] ! 4)
   \<and> snd (exit extras_fail (fst entered0) (snd entered0)) = Some (Raised (ExtraExit 1))
   \<and> trace (fst (fst (exit extras_fail (fst entered0) (snd entered0))))
       = trace (fst entered0) @ [ProcessInterrupts, Kill ''http'' 8000 1, Kill ''http'' 8001 3,
                                 Kill ''https'' 8443 2, ExtraExit 1]"
proof -
  have a: "servers (snd entered0) = Some fleet0" by (simp add: entered0_eq)
  have b: "env_extras_cms (snd entered0) = Some [1, 2]" by (simp add: entered0_eq)
  have c: "config_ctx (snd entered0) = Some cfg0" by (simp add: entered0_eq)
  have n: "(4::nat) < length (release_steps fleet0 [1, 2])" unfolding release_steps0 by simp
  have s: "release_steps fleet0 [1, 2] ! 4 = ExtraExit 1" unfolding release_steps0 by simp
  have r: "raises extras_fail (trace (fst entered0) @ take 4 (release_steps fleet0 [1, 2]))
        (release_steps fleet0 [1, 2] ! 4)"
    unfolding s by (simp add: extras_fail_def)
  have f: "\<forall>m < 4. \<not> raises extras_fail (trace (fst entered0) @ take m (release_steps fleet0 [1, 2]))
                              (release_steps fleet0 [1, 2] ! m)"
  proof (intro allI impI)
    fix m :: nat assume "m < 4"
    then have "m = 0 \<or> m = 1 \<or> m = 2 \<or> m = 3" by auto
    then show "\<not> raises extras_fail (trace (fst entered0) @ take m (release_steps fleet0 [1, 2]))
                              (release_steps fleet0 [1, 2] ! m)"
      unfolding release_steps0 by (auto simp: extras_fail_def)
  qed
  have t: "take (Suc 4) (release_steps fleet0 [1, 2])
       = [ProcessInterrupts, Kill ''http'' 8000 1, Kill ''http'' 8001 3,
          Kill ''https'' 8443 2, ExtraExit 1]"
    unfolding release_steps0 by simp
  from exit_stops_at_first_failure [OF a b c, of extras_fail "fst entered0"] n r f
  have "snd (exit extras_fail (fst entered0) (snd entered0))
          = Some (Raised (release_steps fleet0 [1, 2] ! 4))
      \<and> trace (fst (fst (exit extras_fail (fst entered0) (snd entered0))))
          = trace (fst entered0) @ take (Suc 4) (release_steps fleet0 [1, 2])"
    by blast
  with a b c n s r t show ?thesis by simp
qed

lemma trace_w0 [simp]: "trace w0 = []"
  by (simp add: w0_def)





text \<open>
  C8 (as amended). When no collaborator raises, \<^verbatim>\<open>__enter__\<close> starts the logging
  proxy, the configuration scope, the stash, the cache manager, the extras in the given
  order and the server fleet, in this order; \<^verbatim>\<open>__exit__\<close> then releases the
  fleet's servers, the extras in the order in which they were entered, the cache manager,
  the stash, the configuration scope and the logging proxy, in this order.
\<close>

theorem enter_exit_order:
  assumes "\<forall>h c. \<not> raises env h c" and "build_config env w self = Inr cfg"
    and "env_extras_cms self = None"
  shows "\<exists>w1 self1 w2 self2 new1 new2.
      enter env w self = ((w1, self1), None) \<and> trace w1 = trace w @ new1
    \<and> acquired new1
        = [LoggingProxy, Configuration, Stash, CacheManager] @ map Extra (env_extras self) @ [Fleet]
    \<and> exit env w1 self1 = ((w2, self2), None) \<and> trace w2 = trace w1 @ new2
    \<and> released new2
        = map (\<lambda>c. Fleet) (kill_calls (started env)) @ map Extra (env_extras self)
          @ [CacheManager, Stash, Configuration, LoggingProxy]"
proof -
  let ?new1 = "enter_steps self (debugger_attached w self)"
  let ?w1 = "w\<lparr>trace := trace w @ ?new1\<rparr>"
  let ?self1 = "self\<lparr>config_ctx := Some cfg, config := Some cfg,
      env_extras_cms := Some (env_extras self), servers := Some (started env)\<rparr>"
  let ?new2 = "release_steps (started env) (env_extras self)"
  from assms(1) have nr: "\<And>h c. \<not> raises env h c" by simp
  have e: "enter env w self = ((?w1, ?self1), None)"
    by (rule enter_ok [OF nr assms(2,3)])
  have x: "exit env ?w1 ?self1
     = ((?w1\<lparr>trace := trace ?w1 @ ?new2\<rparr>, ?self1\<lparr>env_extras_cms := None\<rparr>), None)"
    by (rule exit_ok [OF nr]) simp_all
  show ?thesis
    apply (rule exI [of _ ?w1], rule exI [of _ ?self1])
    apply (rule exI [of _ "?w1\<lparr>trace := trace ?w1 @ ?new2\<rparr>"])
    apply (rule exI [of _ "?self1\<lparr>env_extras_cms := None\<rparr>"])
    apply (rule exI [of _ ?new1], rule exI [of _ ?new2])
    using e x
    apply (simp only: acquired_enter_steps released_release_steps)
    apply simp
    done
qed

lemma enter_env1:
  "enter env1 w0 self0
     = ((w0\<lparr>trace := enter_steps self0 False\<rparr>,
         self0\<lparr>config_ctx := Some cfg0, config := Some cfg0,
               env_extras_cms := Some [1, 2], servers := Some http_only\<rparr>), None)"
proof -
  have "enter env1 w0 self0
     = ((w0\<lparr>trace := trace w0 @ enter_steps self0 (debugger_attached w0 self0)\<rparr>,
         self0\<lparr>config_ctx := Some cfg0, config := Some cfg0,
              env_extras_cms := Some (env_extras self0), servers := Some (started env1)\<rparr>), None)"
    by (rule enter_ok [OF _ build_config1]) (simp_all add: env1_def env0_def self0_def)
  then show ?thesis
    by (simp add: no_debugger0) (simp add: w0_def self0_def env0_def env1_def)
qed

lemma exit_env1:
  "exit env1 (w0\<lparr>trace := enter_steps self0 False\<rparr>)
       (self0\<lparr>config_ctx := Some cfg0, config := Some cfg0,
               env_extras_cms := Some [1, 2], servers := Some http_only\<rparr>)
     = ((w0\<lparr>trace := enter_steps self0 False @ release_steps http_only [1, 2]\<rparr>,
         self0\<lparr>config_ctx := Some cfg0, config := Some cfg0,
               env_extras_cms := None, servers := Some http_only\<rparr>), None)"
proof -
  have nr: "\<And>h c. \<not> raises env1 h c" by (simp add: env1_def env0_def)
  show ?thesis
    by (subst exit_ok [OF nr, where fl = http_only and cms = "[1, 2]" and cfg = cfg0])
       (simp_all add: w0_def)
qed

text \<open>
  With two extras and a fleet of one server: the stash is started before the cache
  manager, and the extras are released in the order of their entry, so the releases are
  not the reverse of the acquisitions.
\<close>

theorem enter_exit_order_counterexample:
  "acquired (trace (fst (fst (enter env1 w0 self0))))
       = [LoggingProxy, Configuration, Stash, CacheManager, Extra 1, Extra 2, Fleet]
   \<and> acquired (trace (fst (fst (enter env1 w0 self0))))
       \<noteq> [LoggingProxy, Configuration, CacheManager, Stash, Extra 1, Extra 2, Fleet]
   \<and> released (trace (fst (fst (exit env1 (fst (fst (enter env1 w0 self0)))
                                           (snd (fst (enter env1 w0 self0)))))))
       = [Fleet, Extra 1, Extra 2, CacheManager, Stash, Configuration, LoggingProxy]
   \<and> released (trace (fst (fst (exit env1 (fst (fst (enter env1 w0 self0)))
                                           (snd (fst (enter env1 w0 self0)))))))
       \<noteq> rev (acquired (trace (fst (fst (enter env1 w0 self0)))))"
  apply (simp only: enter_env1 fst_conv snd_conv exit_env1)
  apply (simp add: enter_steps0 release_steps_def kill_calls_def http_only_def)
  done

theorem enter_exit_order_witness:
  "(\<forall>h c. \<not> raises env0 h c) \<and> build_config env0 w0 self0 = Inr cfg0
   \<and> env_extras_cms self0 = None
   \<and> (\<exists>w1 self1 w2 self2 new1 new2.
      enter env0 w0 self0 = ((w1, self1), None) \<and> trace w1 = trace w0 @ new1
    \<and> acquired new1
        = [LoggingProxy, Configuration, Stash, CacheManager] @ map Extra (env_extras self0) @ [Fleet]
    \<and> exit env0 w1 self1 = ((w2, self2), None) \<and> trace w2 = trace w1 @ new2
    \<and> released new2
        = map (\<lambda>c. Fleet) (kill_calls (started env0)) @ map Extra (env_extras self0)
          @ [CacheManager, Stash, Configuration, LoggingProxy])"
proof -
  have a: "\<forall>h c. \<not> raises env0 h c" by (simp add: env0_def)
  have b: "env_extras_cms self0 = None" by (simp add: self0_def)
  show ?thesis
    using a b build_config0 enter_exit_order [OF a build_config0 b] by blast
qed







lemma enter_success_build:
  assumes "snd (enter env w self) = None"
  shows "\<exists>cfg. build_config env w self = Inr cfg"
proof (cases "build_config env w self")
  case (Inl e)
  from enter_build_fail [OF Inl] have "snd (enter env w self) \<noteq> None"
    by (auto simp: outcome_def do_call_def split: prod.splits option.splits if_splits)
  with assms show ?thesis by simp
next
  case (Inr cfg)
  then show ?thesis by simp
qed

lemma enter_success_config:
  assumes "build_config env w self = Inr cfg" and "snd (enter env w self) = None"
  shows "config_ctx (snd (fst (enter env w self))) = Some cfg"
  using assms
  by (auto simp: enter_def andthen_def do_call_def Let_def
        split: prod.splits option.splits if_splits)

lemma enter_success_trace:
  assumes "snd (enter env w self) = None" and "env_extras_cms self = None"
  shows "trace (fst (fst (enter env w self)))
           = trace w @ enter_steps self (debugger_attached w self)"
proof -
  obtain cfg where b: "build_config env w self = Inr cfg"
    using enter_success_build [OF assms(1)] by blast
  have "run_calls env (enter_steps self (debugger_attached w self)) w
          = (fst (fst (enter env w self)), None)"
    using enter_run [OF b assms(2)] assms(1) by (simp add: outcome_def)
  then show ?thesis
    by (rule run_calls_None)
qed

text \<open>
  C10. The constructor removes the key \<^verbatim>\<open>test_server_port\<close> from the caller's
  option bag, taking \<^verbatim>\<open>True\<close> when the key is absent, and leaves every other key
  of that dictionary and every other dictionary as it was. The object keeps the reference
  to the same dictionary. The calls that \<^verbatim>\<open>__enter__\<close> makes are an initial part
  of a sequence in which every extra, in order, is called with that reference and then
  entered; when \<^verbatim>\<open>__enter__\<close> returns, the whole sequence was run, so each extra
  was called with that reference, and the configuration kept on the object is the one
  that \<^verbatim>\<open>build_config\<close> made. \<^verbatim>\<open>build_config\<close> reads the options from that
  dictionary and from no other.
\<close>

theorem init_pops_test_server_port:
  assumes "init w paths dbg (Some r) ssl extras quic = Inr (w1, self)"
  shows "map_of (heap w1 r) = (map_of (heap w r))(''test_server_port'' := None)
       \<and> (\<forall>r'. r' \<noteq> r \<longrightarrow> heap w1 r' = heap w r')
       \<and> test_server_port self
           = (case map_of (heap w r) ''test_server_port'' of None \<Rightarrow> PBool True | Some v \<Rightarrow> v)
       \<and> options self = r
       \<and> (\<forall>env. \<exists>new rest. trace (fst (fst (enter env w1 self))) = trace w1 @ new
             \<and> new @ rest
                 = [LoggingEnter, ConfigEnter, StashEnter, CacheEnter]
                   @ concat (map (\<lambda>x. [ExtraNew x r, ExtraEnter x]) extras)
                   @ [GetRoutes, ServeStart, IgnoreInterrupts])
       \<and> (\<forall>env. snd (enter env w1 self) = None \<longrightarrow>
             trace (fst (fst (enter env w1 self)))
               = trace w1 @ [LoggingEnter, ConfigEnter, StashEnter, CacheEnter]
                 @ concat (map (\<lambda>x. [ExtraNew x r, ExtraEnter x]) extras)
                 @ [GetRoutes, ServeStart]
                 @ (if debugger_attached w1 self then [IgnoreInterrupts] else [])
             \<and> (\<exists>cfg. build_config env w1 self = Inr cfg
                   \<and> config_ctx (snd (fst (enter env w1 self))) = Some cfg))
       \<and> (\<forall>env cfg. build_config env w1 self = Inr cfg \<longrightarrow>
             map_of cfg ''server_host'' = Some (dict_get (heap w1 r) ''server_host'' PNone)
             \<and> (\<forall>w2. heap w2 r = heap w1 r \<longrightarrow> build_config env w2 self = Inr cfg))"
proof -
  from assms have w1: "w1 = w\<lparr>heap := (heap w)(r := AList.delete ''test_server_port'' (heap w r))\<rparr>"
    and opt: "options self = r" and ext: "env_extras self = extras"
    and cms: "env_extras_cms self = None"
    and tsp: "test_server_port self = dict_get (heap w r) ''test_server_port'' (PBool True)"
    by (auto simp: init_def dict_pop_def)
  have 1: "map_of (heap w1 r) = (map_of (heap w r))(''test_server_port'' := None)"
    by (simp add: w1 delete_conv')
  have 2: "\<forall>r'. r' \<noteq> r \<longrightarrow> heap w1 r' = heap w r'"
    by (simp add: w1)
  have 3: "test_server_port self
           = (case map_of (heap w r) ''test_server_port'' of None \<Rightarrow> PBool True | Some v \<Rightarrow> v)"
    by (simp add: tsp dict_get_def)
  have steps: "enter_steps self dbg
      = [LoggingEnter, ConfigEnter, StashEnter, CacheEnter]
        @ concat (map (\<lambda>x. [ExtraNew x r, ExtraEnter x]) extras)
        @ [GetRoutes, ServeStart] @ (if dbg then [IgnoreInterrupts] else [])" for dbg
    by (simp add: enter_steps_def opt ext)
  have 5: "\<forall>env. \<exists>new rest. trace (fst (fst (enter env w1 self))) = trace w1 @ new
             \<and> new @ rest
                 = [LoggingEnter, ConfigEnter, StashEnter, CacheEnter]
                   @ concat (map (\<lambda>x. [ExtraNew x r, ExtraEnter x]) extras)
                   @ [GetRoutes, ServeStart, IgnoreInterrupts]"
  proof
    fix env
    obtain new rest where "trace (fst (fst (enter env w1 self))) = trace w1 @ new"
      "enter_steps self True = new @ rest"
      using enter_trace [of env w1 self] by blast
    then show "\<exists>new rest. trace (fst (fst (enter env w1 self))) = trace w1 @ new
             \<and> new @ rest
                 = [LoggingEnter, ConfigEnter, StashEnter, CacheEnter]
                   @ concat (map (\<lambda>x. [ExtraNew x r, ExtraEnter x]) extras)
                   @ [GetRoutes, ServeStart, IgnoreInterrupts]"
      using steps [of True] by (intro exI [of _ new] exI [of _ rest]) simp
  qed
  have 6: "\<forall>env. snd (enter env w1 self) = None \<longrightarrow>
             trace (fst (fst (enter env w1 self)))
               = trace w1 @ [LoggingEnter, ConfigEnter, StashEnter, CacheEnter]
                 @ concat (map (\<lambda>x. [ExtraNew x r, ExtraEnter x]) extras)
                 @ [GetRoutes, ServeStart]
                 @ (if debugger_attached w1 self then [IgnoreInterrupts] else [])
             \<and> (\<exists>cfg. build_config env w1 self = Inr cfg
                   \<and> config_ctx (snd (fst (enter env w1 self))) = Some cfg)"
  proof (intro allI impI)
    fix env
    assume ok: "snd (enter env w1 self) = None"
    obtain cfg where b: "build_config env w1 self = Inr cfg"
      using enter_success_build [OF ok] by blast
    have "trace (fst (fst (enter env w1 self)))
            = trace w1 @ enter_steps self (debugger_attached w1 self)"
      by (rule enter_success_trace [OF ok cms])
    with steps [of "debugger_attached w1 self"] b enter_success_config [OF b ok]
    show "trace (fst (fst (enter env w1 self)))
               = trace w1 @ [LoggingEnter, ConfigEnter, StashEnter, CacheEnter]
                 @ concat (map (\<lambda>x. [ExtraNew x r, ExtraEnter x]) extras)
                 @ [GetRoutes, ServeStart]
                 @ (if debugger_attached w1 self then [IgnoreInterrupts] else [])
             \<and> (\<exists>cfg. build_config env w1 self = Inr cfg
                   \<and> config_ctx (snd (fst (enter env w1 self))) = Some cfg)"
      by simp
  qed
  have 7: "\<forall>env cfg. build_config env w1 self = Inr cfg \<longrightarrow>
             map_of cfg ''server_host'' = Some (dict_get (heap w1 r) ''server_host'' PNone)
             \<and> (\<forall>w2. heap w2 r = heap w1 r \<longrightarrow> build_config env w2 self = Inr cfg)"
  proof (intro allI impI conjI)
    fix env cfg
    assume b: "build_config env w1 self = Inr cfg"
    then show "map_of cfg ''server_host'' = Some (dict_get (heap w1 r) ''server_host'' PNone)"
      by (auto simp: build_config_def Let_def update_conv' opt
          split: sum.splits override_file.splits option.splits)
    fix w2 :: world assume "heap w2 r = heap w1 r"
    then have "build_config env w2 self = build_config env w1 self"
      by (simp add: build_config_def opt cong: sum.case_cong)
    with b show "build_config env w2 self = Inr cfg" by simp
  qed
  from 1 2 3 opt 5 6 7 show ?thesis by blast
qed


lemma build_config_popped0:
  "build_config env0 popped0 (self0\<lparr>test_server_port := PBool False\<rparr>) = Inr cfg0"
  by (simp add: build_config_def env0_def popped0_def w0_def self0_def cfg0_def serve_path_def
        dict_get_def Let_def)

theorem init_pops_test_server_port_witness:
  "init w0 [(''/'', ''/tests'')] None (Some 0) [] [1, 2] False
     = Inr (popped0, self0\<lparr>test_server_port := PBool False\<rparr>)
   \<and> map_of (heap popped0 0) ''test_server_port'' = None
   \<and> test_server_port (self0\<lparr>test_server_port := PBool False\<rparr>) = PBool False
   \<and> snd (enter env0 popped0 (self0\<lparr>test_server_port := PBool False\<rparr>)) = None
   \<and> trace (fst (fst (enter env0 popped0 (self0\<lparr>test_server_port := PBool False\<rparr>))))
       = [LoggingEnter, ConfigEnter, StashEnter, CacheEnter, ExtraNew 1 0, ExtraEnter 1,
          ExtraNew 2 0, ExtraEnter 2, GetRoutes, ServeStart]
   \<and> build_config env0 popped0 (self0\<lparr>test_server_port := PBool False\<rparr>) = Inr cfg0
   \<and> config_ctx (snd (fst (enter env0 popped0 (self0\<lparr>test_server_port := PBool False\<rparr>))))
       = Some cfg0
   \<and> map_of cfg0 ''server_host'' = Some (PStr ''localhost'')"
proof -
  let ?self = "self0\<lparr>test_server_port := PBool False\<rparr>"
  have a: "init w0 [(''/'', ''/tests'')] None (Some 0) [] [1, 2] False = Inr (popped0, ?self)"
    by (simp add: init_def dict_pop_def dict_get_def popped0_def self0_def w0_def)
  have nr: "\<And>h c. \<not> raises env0 h c" by (simp add: env0_def)
  have c: "env_extras_cms ?self = None" by (simp add: self0_def)
  have ok: "snd (enter env0 popped0 ?self) = None"
    by (subst enter_ok [OF nr build_config_popped0 c]) simp
  have nd: "\<not> debugger_attached popped0 ?self"
    by (simp add: debugger_attached_def self0_def)
  have tr: "trace popped0 = []" by (simp add: popped0_def)
  have sh: "dict_get (heap popped0 0) ''server_host'' PNone = PStr ''localhost''"
    by (simp add: popped0_def dict_get_def)
  have tsp: "map_of (heap w0 0) ''test_server_port'' = Some (PBool False)"
    by (simp add: w0_def)
  from init_pops_test_server_port [OF a] ok build_config_popped0
  have "map_of (heap popped0 0) = (map_of (heap w0 0))(''test_server_port'' := None)"
    and "test_server_port ?self
           = (case map_of (heap w0 0) ''test_server_port'' of None \<Rightarrow> PBool True | Some v \<Rightarrow> v)"
    and "trace (fst (fst (enter env0 popped0 ?self)))
               = trace popped0 @ [LoggingEnter, ConfigEnter, StashEnter, CacheEnter]
                 @ concat (map (\<lambda>x. [ExtraNew x 0, ExtraEnter x]) [1, 2])
                 @ [GetRoutes, ServeStart]
                 @ (if debugger_attached popped0 ?self then [IgnoreInterrupts] else [])"
    and "\<exists>cfg. build_config env0 popped0 ?self = Inr cfg
                   \<and> config_ctx (snd (fst (enter env0 popped0 ?self))) = Some cfg"
    and "map_of cfg0 ''server_host'' = Some (dict_get (heap popped0 0) ''server_host'' PNone)"
    by blast+
  with a ok build_config_popped0 nd tr sh tsp show ?thesis
    by simp
qed

section \<open>Properties of the configuration assembly\<close>

lemma merge_items_keys: "merge_items base over = Some r \<Longrightarrow> map fst r = map fst base"
proof (induction base arbitrary: r)
  case Nil
  then show ?case by simp
next
  case (Cons kb base)
  obtain k b where kb: "kb = (k, b)" by (cases kb)
  from Cons.prems kb obtain b' r' where "merge_items base over = Some r'" "r = (k, b') # r'"
    by (auto split: option.splits)
  with Cons.IH [of r'] kb show ?case by simp
qed

lemma merge_val_dict:
  "merge_val (PDict d) v = Some b' \<Longrightarrow> \<exists>d'. b' = PDict d' \<and> map fst d' = map fst d"
  by (cases v) (auto dest: merge_items_keys)

lemma merge_items_lookup:
  "merge_items base over = Some r \<Longrightarrow> map_of base k = Some (PDict d) \<Longrightarrow>
   \<exists>d'. map_of r k = Some (PDict d') \<and> map fst d' = map fst d"
proof (induction base arbitrary: r)
  case Nil
  then show ?case by simp
next
  case (Cons kb base)
  obtain k0 b where kb: "kb = (k0, b)" by (cases kb)
  from Cons.prems(1) kb obtain b' r' where
    b': "(case map_of over k0 of None \<Rightarrow> Some b | Some v \<Rightarrow> merge_val b v) = Some b'"
    and r': "merge_items base over = Some r'" and r: "r = (k0, b') # r'"
    by (auto split: option.splits)
  show ?case
  proof (cases "k0 = k")
    case True
    with Cons.prems(2) kb have b: "b = PDict d" by simp
    have "\<exists>d'. b' = PDict d' \<and> map fst d' = map fst d"
    proof (cases "map_of over k0")
      case None
      with b' b show ?thesis by auto
    next
      case (Some v)
      with b' b show ?thesis by (auto dest: merge_val_dict)
    qed
    with True r show ?thesis by simp
  next
    case False
    with Cons.prems(2) kb have "map_of base k = Some (PDict d)" by simp
    from Cons.IH [OF r' this] False r show ?thesis by simp
  qed
qed

lemma update_spec_ports:
  assumes "update_spec cfg d = Inr cfg'" and "map_of cfg k = Some (PDict ports)"
  shows "\<exists>ports'. map_of cfg' k = Some (PDict ports') \<and> map fst ports' = map fst ports"
proof -
  from assms(1) have m: "merge_val (PDict cfg) d = Some (PDict cfg')"
    by (auto simp: update_spec_def split: option.splits pyval.splits)
  then obtain over where "d = PDict over"
    by (cases d) auto
  with m have "merge_items cfg over = Some cfg'"
    by auto
  from merge_items_lookup [OF this assms(2)] show ?thesis .
qed

text \<open>
  C9. Whatever the option bag, the override document and the behaviour of
  \<^verbatim>\<open>ConfigBuilder.update\<close> are, a configuration that \<^verbatim>\<open>build_config\<close>
  returns has \<^verbatim>\<open>check_subdomains\<close> set to false: the assignment comes after the
  merge of the override.
\<close>

theorem build_config_check_subdomains:
  assumes "build_config env w self = Inr cfg"
  shows "map_of cfg ''check_subdomains'' = Some (PBool False)"
  using assms
  by (auto simp: build_config_def Let_def update_conv'
        split: sum.splits override_file.splits option.splits)

lemma build_config_override: "build_config env_override w0 self0 = Inr cfg_override"
  by (simp add: build_config_def env_override_def w0_def self0_def cfg_override_def
        serve_path_def dict_get_def Let_def update_spec_def default_ports_def)

theorem build_config_check_subdomains_witness:
  "build_config env_override w0 self0 = Inr cfg_override
   \<and> map_of cfg_override ''check_subdomains'' = Some (PBool False)"
  using build_config_override build_config_check_subdomains [OF build_config_override]
  by simp

lemma build_config_ports_of:
  assumes "build_config env w self = Inr cfg"
  shows "\<exists>cfg1. map_of cfg ''ports'' = map_of cfg1 ''ports''
     \<and> (case override env of
           NoFile \<Rightarrow> cfg1 = AList.update ''ports''
               (PDict (if enable_quic self
                       then AList.update ''quic-transport'' (PList [PInt 10000]) default_ports
                       else default_ports)) (builder0 env)
         | Unparsable \<Rightarrow> False
         | Doc d \<Rightarrow> builder_update env (AList.update ''ports''
               (PDict (if enable_quic self
                       then AList.update ''quic-transport'' (PList [PInt 10000]) default_ports
                       else default_ports)) (builder0 env)) d = Inr cfg1)"
  using assms
  by (auto simp: build_config_def Let_def update_conv'
        split: sum.splits override_file.splits option.splits)

lemma default_ports_keys:
  "map fst default_ports = [''http'', ''https'', ''ws'', ''wss'', ''h2'']"
  "map fst (AList.update ''quic-transport'' v default_ports)
     = [''http'', ''https'', ''ws'', ''wss'', ''h2'', ''quic-transport'']"
  by (simp_all add: default_ports_def)

text \<open>
  C6. With the override merge as the spec describes it, a configuration that
  \<^verbatim>\<open>build_config\<close> returns has a ports mapping with entries for http, https, ws,
  wss and h2; it has an entry for quic-transport exactly when \<^verbatim>\<open>enable_quic\<close> is
  set; without an override document the mapping is the default table.
\<close>

theorem build_config_ports:
  assumes "build_config (env\<lparr>builder_update := update_spec\<rparr>) w self = Inr cfg"
  shows "\<exists>ports. map_of cfg ''ports'' = Some (PDict ports)
       \<and> {''http'', ''https'', ''ws'', ''wss'', ''h2''} \<subseteq> fst ` set ports
       \<and> (''quic-transport'' \<in> fst ` set ports \<longleftrightarrow> enable_quic self)
       \<and> (override env = NoFile \<longrightarrow>
            ports = (if enable_quic self
                     then default_ports @ [(''quic-transport'', PList [PInt 10000])]
                     else default_ports))"
proof -
  let ?env = "env\<lparr>builder_update := update_spec\<rparr>"
  let ?ports0 = "if enable_quic self
                 then AList.update ''quic-transport'' (PList [PInt 10000]) default_ports
                 else default_ports"
  let ?cfg0 = "AList.update ''ports'' (PDict ?ports0) (builder0 env)"
  have keys0: "map fst ?ports0
      = [''http'', ''https'', ''ws'', ''wss'', ''h2'']
        @ (if enable_quic self then [''quic-transport''] else [])"
    by (simp add: default_ports_keys)
  have p0: "map_of ?cfg0 ''ports'' = Some (PDict ?ports0)"
    by (simp add: update_conv')
  from build_config_ports_of [OF assms] have
    "\<exists>cfg1. map_of cfg ''ports'' = map_of cfg1 ''ports''
       \<and> (case override env of NoFile \<Rightarrow> cfg1 = ?cfg0 | Unparsable \<Rightarrow> False
            | Doc d \<Rightarrow> update_spec ?cfg0 d = Inr cfg1)"
    by (simp cong: override_file.case_cong)
  then obtain cfg1 where
    eq: "map_of cfg ''ports'' = map_of cfg1 ''ports''"
    and c: "case override env of NoFile \<Rightarrow> cfg1 = ?cfg0 | Unparsable \<Rightarrow> False
            | Doc d \<Rightarrow> update_spec ?cfg0 d = Inr cfg1"
    by blast
  have "\<exists>ports. map_of cfg1 ''ports'' = Some (PDict ports) \<and> map fst ports = map fst ?ports0
          \<and> (override env = NoFile \<longrightarrow> ports = ?ports0)"
  proof (cases "override env")
    case NoFile
    with c p0 show ?thesis by simp
  next
    case Unparsable
    with c show ?thesis by simp
  next
    case (Doc d)
    with c have "update_spec ?cfg0 d = Inr cfg1" by simp
    from update_spec_ports [OF this p0] Doc show ?thesis by auto
  qed
  then obtain ports where ports: "map_of cfg1 ''ports'' = Some (PDict ports)"
    and keys: "map fst ports = map fst ?ports0"
    and nofile: "override env = NoFile \<longrightarrow> ports = ?ports0"
    by blast
  have set_keys: "fst ` set ports = set (map fst ?ports0)"
    using keys by (metis set_map)
  have a: "{''http'', ''https'', ''ws'', ''wss'', ''h2''} \<subseteq> fst ` set ports"
    unfolding set_keys keys0 by simp
  have b: "''quic-transport'' \<in> fst ` set ports \<longleftrightarrow> enable_quic self"
    unfolding set_keys keys0 by simp
  have d: "override env = NoFile \<longrightarrow>
            ports = (if enable_quic self
                     then default_ports @ [(''quic-transport'', PList [PInt 10000])]
                     else default_ports)"
    using nofile by (simp add: default_ports_def)
  from eq ports a b d show ?thesis by auto
qed

lemma build_config_override':
  "build_config (env_override\<lparr>builder_update := update_spec\<rparr>) w0 self0 = Inr cfg_override"
  using build_config_override by (simp add: env_override_def)

theorem build_config_ports_witness:
  "build_config (env_override\<lparr>builder_update := update_spec\<rparr>) w0 self0 = Inr cfg_override
   \<and> (\<exists>ports. map_of cfg_override ''ports'' = Some (PDict ports)
       \<and> {''http'', ''https'', ''ws'', ''wss'', ''h2''} \<subseteq> fst ` set ports
       \<and> (''quic-transport'' \<in> fst ` set ports \<longleftrightarrow> enable_quic self0))"
  using build_config_override' build_config_ports [OF build_config_override']
  by blast


section \<open>Properties of the logging proxy\<close>

lemma emit_all_from:
  "emit_all rs q = q @ map (\<lambda>(lvl, msg). Some \<lparr>level = lvl, message = msg\<rparr>) rs"
  unfolding emit_all_def
  by (induction rs arbitrary: q) (auto simp: logger_proxy_log_def)

lemma component_filter_eq:
  "component_filter \<lparr>level = lvl, message = msg\<rparr>
     = (if rank LInfo \<le> rank lvl
        then Some \<lparr>level = (if lvl = LError then LWarning else lvl), message = msg\<rparr>
        else None)"
  by (cases lvl) (simp_all add: component_filter_def log_level_rewriter_def log_level_filter_def)

lemma log_queue_thread_sentinel:
  "log_queue_thread component_filter
     (map (\<lambda>(lvl, msg). Some \<lparr>level = lvl, message = msg\<rparr>) rs @ [None])
   = map (\<lambda>(lvl, msg). \<lparr>level = (if lvl = LError then LWarning else lvl), message = msg\<rparr>)
       (filter (\<lambda>(lvl, msg). rank LInfo \<le> rank lvl) rs)"
  by (induction rs) (auto simp: component_filter_eq)

lemma delivered_eq:
  "delivered rs
     = map (\<lambda>(lvl, msg). \<lparr>level = (if lvl = LError then LWarning else lvl), message = msg\<rparr>)
         (filter (\<lambda>(lvl, msg). rank LInfo \<le> rank lvl) rs)"
  by (simp add: delivered_def proxy_exit_def emit_all_from log_queue_thread_sentinel)

text \<open>
  C7. For every sequence of records emitted through the proxy logger and followed by the
  sentinel: no record below info severity is delivered, and none is delivered as an error;
  the delivered records are the emitted ones of severity info and above, in the order of
  emission, with error rewritten to warning; in particular info, error, debug yields the
  info record and then the warning rewritten from the error.
\<close>

theorem proxy_filter_chain:
  "(\<forall>d \<in> set (delivered rs). rank LInfo \<le> rank (level d) \<and> level d \<noteq> LError)
   \<and> delivered rs
       = map (\<lambda>(lvl, msg). \<lparr>level = (if lvl = LError then LWarning else lvl), message = msg\<rparr>)
           (filter (\<lambda>(lvl, msg). rank LInfo \<le> rank lvl) rs)
   \<and> delivered [(LInfo, a), (LError, b), (LDebug, c)]
       = [\<lparr>level = LInfo, message = a\<rparr>, \<lparr>level = LWarning, message = b\<rparr>]"
proof -
  have "\<forall>d \<in> set (delivered rs). rank LInfo \<le> rank (level d) \<and> level d \<noteq> LError"
    by (auto simp: delivered_eq)
  moreover have "delivered [(LInfo, a), (LError, b), (LDebug, c)]
       = [\<lparr>level = LInfo, message = a\<rparr>, \<lparr>level = LWarning, message = b\<rparr>]"
    by (simp add: delivered_eq)
  ultimately show ?thesis
    using delivered_eq [of rs] by blast
qed

theorem proxy_filter_chain_witness:
  "\<lparr>level = LWarning, message = ''y''\<rparr>
     \<in> set (delivered [(LCritical, ''w''), (LDebug, ''x''), (LError, ''y'')])
   \<and> rank LInfo \<le> rank (level \<lparr>level = LWarning, message = ''y''\<rparr>)
   \<and> level \<lparr>level = LWarning, message = ''y''\<rparr> \<noteq> LError
   \<and> delivered [(LCritical, ''w''), (LDebug, ''x''), (LError, ''y'')]
       = [\<lparr>level = LCritical, message = ''w''\<rparr>, \<lparr>level = LWarning, message = ''y''\<rparr>]"
  using proxy_filter_chain [of "[(LCritical, ''w''), (LDebug, ''x''), (LError, ''y'')]"]
  by simp

end
